theory Spec2Isabelle
  imports Main "HOL-Library.AList" "HOL-Library.Multiset"
begin

section \<open>JavaScript values of the components configuration\<close>

text \<open>
  The \<open>components\<close> option is typed \<open>any\<close> in \<open>normalizeDirs\<close>, so the model keeps
  the dynamic shapes of the source: a configuration value is \<open>undefined\<close>, \<open>null\<close>, a
  boolean, a number, a string, an array or a plain object. An object is the list of its
  own properties in insertion order. Numbers are integers (a directory configuration
  carries no fraction and no NaN).
\<close>

datatype jsval =
    Undefined
  | Null
  | Bool bool
  | Num int
  | Str string
  | Arr "jsval list"
  | Obj "(string \<times> jsval) list"

datatype error = TypeError | HookError string | ScanError string

text \<open>JavaScript truthiness (\<open>!dir\<close>, \<open>a || b\<close>, \<open>filter(_dir => _dir.path)\<close>).\<close>

fun truthy :: "jsval \<Rightarrow> bool" where
  "truthy Undefined = False"
| "truthy Null = False"
| "truthy (Bool b) = b"
| "truthy (Num n) = (n \<noteq> 0)"
| "truthy (Str s) = (s \<noteq> [])"
| "truthy (Arr xs) = True"
| "truthy (Obj fs) = True"

text \<open>
  Property read \<open>v.k\<close>: a TypeError on \<open>undefined\<close> and \<open>null\<close>, the stored value on
  an object that has the property, \<open>undefined\<close> otherwise. The names read by the module
  (\<open>dirs\<close>, \<open>path\<close>, \<open>transpile\<close>, \<open>extensions\<close>, \<open>level\<close>, \<open>pattern\<close>, \<open>ignore\<close>,
  \<open>enabled\<close>) are not members of booleans, numbers, strings or arrays.
\<close>

fun getProp :: "jsval \<Rightarrow> string \<Rightarrow> error + jsval" where
  "getProp Undefined k = Inl TypeError"
| "getProp Null k = Inl TypeError"
| "getProp (Obj fs) k = (case map_of fs k of None \<Rightarrow> Inr Undefined | Some v \<Rightarrow> Inr v)"
| "getProp v k = Inr Undefined"

text \<open>The properties copied by an object spread \<open>{ ...v }\<close>: none for a primitive.\<close>

fun ownProps :: "jsval \<Rightarrow> (string \<times> jsval) list" where
  "ownProps (Obj fs) = fs"
| "ownProps v = []"

text \<open>\<open>isPureObjectOrString\<close> (line 10); \<open>typeof null\<close> is \<open>'object'\<close>.\<close>

fun isPureObjectOrString :: "jsval \<Rightarrow> bool" where
  "isPureObjectOrString (Obj fs) = True"
| "isPureObjectOrString Null = True"
| "isPureObjectOrString (Str s) = True"
| "isPureObjectOrString v = False"

section \<open>Strings and paths\<close>

definition startsWith :: "string \<Rightarrow> string \<Rightarrow> bool" where
  "startsWith s p = (take (length p) s = p)"

fun strIncludes :: "string \<Rightarrow> string \<Rightarrow> bool" where
  "strIncludes [] sub = (sub = [])"
| "strIncludes (c # cs) sub = (startsWith (c # cs) sub \<or> strIncludes cs sub)"

definition endsWith :: "string \<Rightarrow> string \<Rightarrow> bool" where
  "endsWith s suf = (length suf \<le> length s \<and> drop (length s - length suf) s = suf)"

text \<open>\<open>s.split(/[\\/]/)\<close>: the pieces between separators, empty pieces included.\<close>

definition isSep :: "char \<Rightarrow> bool" where
  "isSep c = (c = CHR ''/'' \<or> c = CHR 0x5C)"

fun splitPath :: "string \<Rightarrow> string list" where
  "splitPath [] = [[]]"
| "splitPath (c # cs) =
     (if isSep c then [] # splitPath cs
      else (case splitPath cs of [] \<Rightarrow> [[c]] | w # ws \<Rightarrow> (c # w) # ws))"

text \<open>\<open>p.split(/[\\/]/).filter(Boolean).length\<close>, the operand of line 13.\<close>

definition segmentCount :: "string \<Rightarrow> nat" where
  "segmentCount p = length (filter (\<lambda>w. w \<noteq> []) (splitPath p))"

text \<open>\<open>DEFAULT_COMPONENTS_DIRS_RE.test(p)\<close> (line 16): both alternatives end in \<open>$\<close>.\<close>

definition DEFAULT_COMPONENTS_DIRS_RE :: "string \<Rightarrow> bool" where
  "DEFAULT_COMPONENTS_DIRS_RE p =
     (endsWith p ''/components'' \<or> endsWith p ''/components/global'')"

section \<open>The collaborators outside the module\<close>

text \<open>
  \<open>resolve\<close> (package pathe), \<open>resolveAlias\<close> (the kit), \<open>statSync\<close> (the file system),
  the two extension hooks, the scanner and the coercion \<open>Number\<close> of the language are
  not part of the module: they are the fields of an environment that every operation
  takes. A hook receives the array and may change it in place or throw; the scanner
  may throw.
\<close>

datatype stat = StatThrows | Stats bool

text \<open>
  A component as the scanner produces it. The module reads only its \<open>mode\<close>
  (\<open>'client'\<close>, \<open>'server'\<close>, \<open>'all'\<close>, or absent).
\<close>

datatype Mode = Client | Server | AllModes

record Component =
  pascalName :: string
  filePath :: string
  mode :: "Mode option"

record env =
  resolve :: "string \<Rightarrow> string \<Rightarrow> string"
  resolveAlias :: "string \<Rightarrow> string"
  statSync :: "string \<Rightarrow> stat"
  hookComponentsDirs :: "jsval list \<Rightarrow> error + jsval list"
  scanComponents :: "jsval list \<Rightarrow> string \<Rightarrow> error + Component list"
  hookComponentsExtend :: "Component list \<Rightarrow> error + Component list"
  toNumber :: "jsval \<Rightarrow> jsval"

text \<open>\<open>isDirectory\<close> (line 11): a failing \<open>statSync\<close> is caught and answers false.\<close>

definition isDirectory :: "env \<Rightarrow> string \<Rightarrow> bool" where
  "isDirectory E p = (case statSync E p of StatThrows \<Rightarrow> False | Stats d \<Rightarrow> d)"

section \<open>normalizeDirs\<close>

text \<open>
  \<open>compareDirByPathLength\<close> (lines 12-14) reads \<open>path\<close> of both operands and splits it:
  a TypeError unless \<open>path\<close> is a string.
\<close>

fun pathOf :: "jsval \<Rightarrow> string option" where
  "pathOf (Obj fs) = (case map_of fs ''path'' of Some (Str p) \<Rightarrow> Some p | _ \<Rightarrow> None)"
| "pathOf v = None"

definition dirDepth :: "jsval \<Rightarrow> nat" where
  "dirDepth d = (case pathOf d of Some p \<Rightarrow> segmentCount p | None \<Rightarrow> 0)"

definition compareDirByPathLength :: "jsval \<Rightarrow> jsval \<Rightarrow> error + int" where
  "compareDirByPathLength a b =
     (case (pathOf a, pathOf b) of
        (Some pathA, Some pathB) \<Rightarrow> Inr (int (segmentCount pathB) - int (segmentCount pathA))
      | _ \<Rightarrow> Inl TypeError)"

text \<open>
  \<open>xs.sort(compareDirByPathLength)\<close>: the sort of the language is stable and calls the
  comparator only on an array of two or more elements, where every element is compared
  at least once. The comparator orders by the negated segment count.
\<close>

definition sortDirs :: "jsval list \<Rightarrow> error + jsval list" where
  "sortDirs xs =
     (if length xs \<le> 1 then Inr xs
      else if list_all (\<lambda>d. pathOf d \<noteq> None) xs
      then Inr (sort_key (\<lambda>d. - int (dirDepth d)) xs)
      else Inl TypeError)"

text \<open>\<open>rs.flat()\<close>: one level of arrays is opened, anything else stays an element.\<close>

fun flat1 :: "jsval \<Rightarrow> jsval list" where
  "flat1 (Arr xs) = xs"
| "flat1 v = [v]"

definition flat :: "jsval list \<Rightarrow> jsval list" where
  "flat rs = concat (map flat1 rs)"

text \<open>The results of a \<open>map\<close> whose callback may throw: the first throw wins.\<close>

fun collect :: "(error + 'a) list \<Rightarrow> error + 'a list" where
  "collect [] = Inr []"
| "collect (Inl e # rs) = Inl e"
| "collect (Inr v # rs) = (case collect rs of Inl e \<Rightarrow> Inl e | Inr vs \<Rightarrow> Inr (v # vs))"

text \<open>
  Lines 58-62, for a truthy \<open>dir\<close> that is neither an array, \<open>true\<close> nor a string.
  \<open>dir.dirs.map\<close> is a TypeError unless \<open>dir.dirs\<close> is an array; \<open>resolveAlias\<close> takes
  \<open>startsWith\<close> of its argument for each alias, a TypeError unless it is a string.
\<close>

definition dirsOf :: "jsval \<Rightarrow> error + jsval list" where
  "dirsOf dir =
     (case getProp dir ''dirs'' of
        Inl e \<Rightarrow> Inl e
      | Inr ds \<Rightarrow>
          if truthy ds then (case ds of Arr xs \<Rightarrow> Inr xs | _ \<Rightarrow> Inl TypeError)
          else Inr [dir])"

fun wrapString :: "jsval \<Rightarrow> jsval" where
  "wrapString (Str s) = Obj [(''path'', Str s)]"
| "wrapString v = v"

fun filterPath :: "jsval list \<Rightarrow> error + jsval list" where
  "filterPath [] = Inr []"
| "filterPath (d # ds) =
     (case getProp d ''path'' of
        Inl e \<Rightarrow> Inl e
      | Inr p \<Rightarrow>
          (case filterPath ds of
             Inl e \<Rightarrow> Inl e
           | Inr ks \<Rightarrow> Inr (if truthy p then d # ks else ks)))"

definition resolveDirPath :: "env \<Rightarrow> string \<Rightarrow> jsval \<Rightarrow> error + jsval" where
  "resolveDirPath E cwd d =
     (case getProp d ''path'' of
        Inr (Str p) \<Rightarrow>
          Inr (Obj (AList.update ''path'' (Str (resolve E cwd (resolveAlias E p))) (ownProps d)))
      | _ \<Rightarrow> Inl TypeError)"

definition normalizeObject :: "env \<Rightarrow> jsval \<Rightarrow> string \<Rightarrow> error + jsval" where
  "normalizeObject E dir cwd =
     (case dirsOf dir of
        Inl e \<Rightarrow> Inl e
      | Inr ds \<Rightarrow>
          (case filterPath (map wrapString ds) of
             Inl e \<Rightarrow> Inl e
           | Inr dirs \<Rightarrow>
               (case collect (map (resolveDirPath E cwd) dirs) of
                  Inl e \<Rightarrow> Inl e
                | Inr rs \<Rightarrow> Inr (Arr rs))))"

definition defaultDirs :: "env \<Rightarrow> string \<Rightarrow> jsval" where
  "defaultDirs E cwd =
     Arr [Obj [(''path'', Str (resolve E cwd ''components/global'')), (''global'', Bool True)],
          Obj [(''path'', Str (resolve E cwd ''components''))]]"

text \<open>\<open>normalizeDirs\<close> (lines 40-63), branch by branch in the order of the source.\<close>

fun normalizeDirs :: "env \<Rightarrow> jsval \<Rightarrow> string \<Rightarrow> error + jsval" where
  "normalizeDirs E (Arr ds) cwd =
     (case collect (map (\<lambda>d. normalizeDirs E d cwd) ds) of
        Inl e \<Rightarrow> Inl e
      | Inr rs \<Rightarrow> (case sortDirs (flat rs) of Inl e \<Rightarrow> Inl e | Inr ss \<Rightarrow> Inr (Arr ss)))"
| "normalizeDirs E (Bool True) cwd = Inr (defaultDirs E cwd)"
| "normalizeDirs E Undefined cwd = Inr (defaultDirs E cwd)"
| "normalizeDirs E (Str s) cwd = Inr (Obj [(''path'', Str (resolve E cwd (resolveAlias E s)))])"
| "normalizeDirs E Null cwd = Inr (Arr [])"
| "normalizeDirs E (Bool False) cwd = Inr (Arr [])"
| "normalizeDirs E (Num n) cwd = (if n = 0 then Inr (Arr []) else normalizeObject E (Num n) cwd)"
| "normalizeDirs E (Obj fs) cwd = normalizeObject E (Obj fs) cwd"

section \<open>The module state and the project options\<close>

text \<open>
  \<open>setup\<close> owns \<open>componentDirs\<close> (line 29) and \<open>context.components\<close> (lines 30-32);
  it appends to \<open>nuxt.options.build.transpile\<close>, writes warnings to the console and
  requests \<open>builder:generateApp\<close>. The options it only reads are \<open>_layers\<close> (the
  \<open>components\<close> configuration and the \<open>srcDir\<close> of each layer), \<open>extensions\<close>,
  \<open>srcDir\<close> and \<open>componentOptions.global\<close>.
\<close>

record nuxtOptions =
  layers :: "(jsval \<times> string) list"
  extensions :: "string list"
  srcDir :: string
  globalOption :: jsval

record moduleState =
  componentDirs :: "jsval list"
  components :: "Component list"
  buildTranspile :: "jsval list"
  console :: "string list"
  generateAppRequests :: nat

definition setup_module :: "jsval list \<Rightarrow> string list \<Rightarrow> moduleState" where
  "setup_module transpile0 console0 =
     \<lparr> componentDirs = [], components = [], buildTranspile = transpile0,
       console = console0, generateAppRequests = 0 \<rparr>"

section \<open>getComponents\<close>

text \<open>Lines 34-38: \<open>mode && mode !== 'all'\<close> selects the filter.\<close>

definition getComponents :: "moduleState \<Rightarrow> Mode option \<Rightarrow> Component list" where
  "getComponents st m =
     (case m of
        None \<Rightarrow> components st
      | Some md \<Rightarrow>
          if md \<noteq> AllModes
          then filter (\<lambda>c. mode c = Some md \<or> mode c = Some AllModes) (components st)
          else components st)"

section \<open>The app:resolve hook\<close>

text \<open>A read \<open>o.k\<close> on the property list of an object: \<open>undefined\<close> when absent.\<close>

definition field :: "(string \<times> jsval) list \<Rightarrow> string \<Rightarrow> jsval" where
  "field fs k = (case map_of fs k of None \<Rightarrow> Undefined | Some v \<Rightarrow> v)"

definition get :: "jsval \<Rightarrow> string \<Rightarrow> jsval" where
  "get d k = field (ownProps d) k"

text \<open>\<open>e.replace(/^\./g, '')\<close>: one leading dot is removed.\<close>

fun stripDot :: "string \<Rightarrow> string" where
  "stripDot [] = []"
| "stripDot (c # cs) = (if c = CHR ''.'' then cs else c # cs)"

fun join :: "string \<Rightarrow> string list \<Rightarrow> string" where
  "join sep [] = []"
| "join sep [x] = x"
| "join sep (x # y # ys) = x @ sep @ join sep (y # ys)"

fun asString :: "jsval \<Rightarrow> error + string" where
  "asString (Str s) = Inr s"
| "asString v = Inl TypeError"

text \<open>
  Line 78: \<open>(dirOptions.extensions || nuxt.options.extensions).map(e => e.replace(..))\<close>;
  \<open>map\<close> needs an array and \<open>replace\<close> a string.
\<close>

definition extensionsOf :: "nuxtOptions \<Rightarrow> (string \<times> jsval) list \<Rightarrow> error + string list" where
  "extensionsOf N fs =
     (let x = field fs ''extensions'' in
      if truthy x
      then (case x of
              Arr es \<Rightarrow> (case collect (map asString es) of
                           Inl e \<Rightarrow> Inl e
                         | Inr ss \<Rightarrow> Inr (map stripDot ss))
            | _ \<Rightarrow> Inl TypeError)
      else Inr (map stripDot (extensions N)))"

text \<open>Line 80: \<open>Number(dirOptions.level || 0)\<close>.\<close>

definition levelOf :: "env \<Rightarrow> (string \<times> jsval) list \<Rightarrow> jsval" where
  "levelOf E fs =
     (let l = field fs ''level'' in
      if truthy l then (case l of Num n \<Rightarrow> Num n | _ \<Rightarrow> toNumber E l) else Num 0)"

text \<open>
  Lines 96-100: the array literal spreads \<open>dirOptions.ignore || []\<close>; an array gives
  its elements, a string its characters, anything else truthy is not iterable.
\<close>

definition ignoreOf :: "(string \<times> jsval) list \<Rightarrow> error + jsval list" where
  "ignoreOf fs =
     (let i = field fs ''ignore'' in
      if truthy i
      then (case i of
              Arr xs \<Rightarrow> Inr xs
            | Str s \<Rightarrow> Inr (map (\<lambda>c. Str [c]) s)
            | _ \<Rightarrow> Inl TypeError)
      else Inr [])"

definition warning :: "string \<Rightarrow> string" where
  "warning dirPath = ''Components directory not found: `'' @ dirPath @ ''`''"

text \<open>
  The object literal of lines 88-102: the properties in the order written, a later one
  of the same name replacing the value in place.
\<close>

definition objectLiteral :: "(string \<times> jsval) list \<Rightarrow> (string \<times> jsval) list" where
  "objectLiteral kvs = foldl (\<lambda>acc (k, v). AList.update k v acc) [] kvs"

text \<open>
  The callback of the \<open>map\<close> of lines 74-103 on the properties of \<open>dirOptions\<close>:
  the warnings written and the resolved directory, or the TypeError thrown.
\<close>

definition resolvedDir ::
  "nuxtOptions \<Rightarrow> (string \<times> jsval) list \<Rightarrow> string \<Rightarrow> string list \<Rightarrow> jsval list \<Rightarrow>
   bool option \<Rightarrow> jsval" where
  "resolvedDir N fs dirPath exts ign transpile =
     Obj (objectLiteral
       ([(''global'', globalOption N)] @ fs @
        [(''enabled'', Bool True),
         (''path'', Str dirPath),
         (''extensions'', Arr (map Str exts)),
         (''pattern'',
            if truthy (field fs ''pattern'') then field fs ''pattern''
            else Str (''**/*.{'' @ join '','' exts @ '',}'')),
         (''ignore'',
            Arr ([Str ''**/*{M,.m,-m}ixin.{js,ts,jsx,tsx}'', Str ''**/*.d.ts''] @ ign)),
         (''transpile'',
            Bool (case transpile of
                    None \<Rightarrow> strIncludes dirPath ''node_modules''
                  | Some b \<Rightarrow> b))]))"

definition resolveOptions ::
  "env \<Rightarrow> nuxtOptions \<Rightarrow> (string \<times> jsval) list \<Rightarrow> string list \<times> (error + jsval)" where
  "resolveOptions E N fs0 =
     (case asString (field fs0 ''path'') of
        Inl e \<Rightarrow> ([], Inl e)
      | Inr p \<Rightarrow>
          (let dirPath = resolveAlias E p;
               transpile = (case field fs0 ''transpile'' of Bool b \<Rightarrow> Some b | _ \<Rightarrow> None)
           in case extensionsOf N fs0 of
                Inl e \<Rightarrow> ([], Inl e)
              | Inr exts \<Rightarrow>
                  (let fs = AList.update ''level'' (levelOf E fs0) fs0;
                       present = isDirectory E dirPath;
                       ws = (if \<not> present \<and> \<not> DEFAULT_COMPONENTS_DIRS_RE p
                             then [warning dirPath] else [])
                   in case ignoreOf fs of
                        Inl e \<Rightarrow> (ws, Inl e)
                      | Inr ign \<Rightarrow> (ws, Inr (resolvedDir N fs dirPath exts ign transpile)))))"

text \<open>
  Line 75: \<open>typeof dir === 'object' ? dir : { path: dir }\<close>. An array is an object
  for \<open>typeof\<close> and has none of the properties read. \<open>null\<close> is one too, and
  reading its \<open>path\<close> on line 76 throws.
\<close>

fun dirOptionsOf :: "jsval \<Rightarrow> (string \<times> jsval) list" where
  "dirOptionsOf (Obj fs) = fs"
| "dirOptionsOf (Arr xs) = []"
| "dirOptionsOf v = [(''path'', v)]"

definition resolveDir :: "env \<Rightarrow> nuxtOptions \<Rightarrow> jsval \<Rightarrow> string list \<times> (error + jsval)" where
  "resolveDir E N dir =
     (if dir = Null then ([], Inl TypeError) else resolveOptions E N (dirOptionsOf dir))"

fun resolveDirs :: "env \<Rightarrow> nuxtOptions \<Rightarrow> jsval list \<Rightarrow> string list \<times> (error + jsval list)" where
  "resolveDirs E N [] = ([], Inr [])"
| "resolveDirs E N (d # ds) =
     (case resolveDir E N d of
        (ws, Inl e) \<Rightarrow> (ws, Inl e)
      | (ws, Inr r) \<Rightarrow>
          (case resolveDirs E N ds of
             (ws', Inl e) \<Rightarrow> (ws @ ws', Inl e)
           | (ws', Inr rs) \<Rightarrow> (ws @ ws', Inr (r # rs))))"

text \<open>Lines 68-70: the directories of all layers, one level flattened.\<close>

definition allDirsOf :: "env \<Rightarrow> nuxtOptions \<Rightarrow> error + jsval list" where
  "allDirsOf E N =
     (case collect (map (\<lambda>(cfg, src). normalizeDirs E cfg src) (layers N)) of
        Inl e \<Rightarrow> Inl e
      | Inr rs \<Rightarrow> Inr (flat rs))"

text \<open>
  Lines 72-74: the \<open>components:dirs\<close> hook sees the array, then the entries that are
  objects or strings go to the resolver.
\<close>

definition resolverInput :: "env \<Rightarrow> nuxtOptions \<Rightarrow> error + jsval list" where
  "resolverInput E N =
     (case allDirsOf E N of
        Inl e \<Rightarrow> Inl e
      | Inr allDirs0 \<Rightarrow>
          (case hookComponentsDirs E allDirs0 of
             Inl e \<Rightarrow> Inl e
           | Inr allDirs \<Rightarrow> Inr (filter isPureObjectOrString allDirs)))"

text \<open>\<open>dir.path.includes('node_modules')\<close> on a resolved directory (lines 106-107).\<close>

definition inNodeModules :: "jsval \<Rightarrow> bool" where
  "inNodeModules d = (case get d ''path'' of Str p \<Rightarrow> strIncludes p ''node_modules'' | _ \<Rightarrow> False)"

definition orderDirs :: "jsval list \<Rightarrow> jsval list" where
  "orderDirs ds = filter (\<lambda>d. \<not> inNodeModules d) ds @ filter inNodeModules ds"

text \<open>
  The handler of \<open>app:resolve\<close> (lines 66-111): the error thrown, if any, and the state
  it leaves.
\<close>

definition app_resolve :: "env \<Rightarrow> nuxtOptions \<Rightarrow> moduleState \<Rightarrow> error option \<times> moduleState" where
  "app_resolve E N st =
     (case resolverInput E N of
        Inl e \<Rightarrow> (Some e, st)
      | Inr entries \<Rightarrow>
          (case resolveDirs E N entries of
             (ws, Inl e) \<Rightarrow> (Some e, st\<lparr>console := console st @ ws\<rparr>)
           | (ws, Inr rs) \<Rightarrow>
               let dirs = orderDirs (filter (\<lambda>d. truthy (get d ''enabled'')) rs)
               in (None,
                   st\<lparr>console := console st @ ws,
                      componentDirs := dirs,
                      buildTranspile := buildTranspile st @
                        map (\<lambda>d. get d ''path'')
                          (filter (\<lambda>d. truthy (get d ''transpile'')) dirs)\<rparr>)))"

section \<open>The app:templates hook\<close>

text \<open>Lines 134-138: the registry is assigned after the scan and the hook returned.\<close>

definition app_templates :: "env \<Rightarrow> nuxtOptions \<Rightarrow> moduleState \<Rightarrow> error option \<times> moduleState" where
  "app_templates E N st =
     (case scanComponents E (componentDirs st) (srcDir N) of
        Inl e \<Rightarrow> (Some e, st)
      | Inr newComponents \<Rightarrow>
          (case hookComponentsExtend E newComponents of
             Inl e \<Rightarrow> (Some e, st)
           | Inr extended \<Rightarrow> (None, st\<lparr>components := extended\<rparr>)))"

section \<open>The builder:watch hook\<close>

text \<open>
  Lines 145-153. \<open>find\<close> answers the first directory whose path is a prefix of
  \<open>fPath\<close>, or \<open>undefined\<close>; the request is made when the answer is truthy.
\<close>

definition tracks :: "string \<Rightarrow> jsval \<Rightarrow> bool" where
  "tracks fPath dir = (case get dir ''path'' of Str p \<Rightarrow> startsWith fPath p | _ \<Rightarrow> False)"

definition builder_watch ::
  "env \<Rightarrow> nuxtOptions \<Rightarrow> moduleState \<Rightarrow> string \<Rightarrow> string \<Rightarrow> moduleState" where
  "builder_watch E N st event path =
     (if event \<notin> set [''add'', ''unlink''] then st
      else
        let fPath = resolve E (srcDir N) path
        in (case find (tracks fPath) (componentDirs st) of
              None \<Rightarrow> st
            | Some dir \<Rightarrow>
                if truthy dir
                then st\<lparr>generateAppRequests := generateAppRequests st + 1\<rparr>
                else st))"

section \<open>An example environment\<close>

text \<open>
  For the examples: \<open>resolve\<close> on an absolute base without a trailing slash and a
  relative name without dot segments joins the two with a slash, and an absolute name
  replaces the base; no alias is configured; the directories named exist; the hooks
  and the scanner change nothing.
\<close>

definition exampleEnv :: "string list \<Rightarrow> env" where
  "exampleEnv existing =
     \<lparr> resolve = (\<lambda>cwd p. if startsWith p ''/'' then p else cwd @ ''/'' @ p),
       resolveAlias = (\<lambda>p. p),
       statSync = (\<lambda>p. if p \<in> set existing then Stats True else StatThrows),
       hookComponentsDirs = Inr,
       scanComponents = (\<lambda>dirs src. Inr []),
       hookComponentsExtend = Inr,
       toNumber = (\<lambda>v. v) \<rparr>"

text \<open>
  A project of one layer rooted at \<open>/app\<close>: a directory that is missing, the
  defaults, two directories under \<open>node_modules\<close> (one with transpilation switched
  off) and a deep directory with transpilation switched on.
\<close>

definition exampleOptions :: nuxtOptions where
  "exampleOptions =
     \<lparr> layers =
         [(Arr [Str ''missing'',
                Bool True,
                Obj [(''path'', Str ''node_modules/ui/components''), (''transpile'', Bool False)],
                Str ''node_modules/lib'',
                Obj [(''path'', Str ''deep/er/dir''), (''transpile'', Bool True)]],
           ''/app'')],
       extensions = [''.vue''],
       srcDir = ''/app'',
       globalOption = Undefined \<rparr>"

text \<open>Only \<open>/app/components\<close> exists; the state after \<open>app:resolve\<close> on that project.\<close>

definition exampleDisk :: env where
  "exampleDisk = exampleEnv [''/app/components'']"

definition exampleResolved :: moduleState where
  "exampleResolved = snd (app_resolve exampleDisk exampleOptions (setup_module [] []))"

text \<open>
  A project of two layers: the first configures a shallow directory and a deep one
  under \<open>node_modules\<close>, the second has the default configuration. Nothing exists
  on disk.
\<close>

definition layeredOptions :: nuxtOptions where
  "layeredOptions =
     \<lparr> layers = [(Arr [Str ''a'', Str ''node_modules/x/y/z''], ''/app''),
                 (Bool True, ''/base/layer'')],
       extensions = [''.vue''],
       srcDir = ''/app'',
       globalOption = Undefined \<rparr>"

definition layeredResolved :: moduleState where
  "layeredResolved = snd (app_resolve (exampleEnv []) layeredOptions (setup_module [] []))"

text \<open>
  A project whose configuration names a directory that exists, one that is missing,
  a path that is a file, a missing \<open>lib/components\<close> and the defaults, of which
  \<open>/app/components\<close> exists.
\<close>

definition warnOptions :: nuxtOptions where
  "warnOptions =
     \<lparr> layers =
         [(Arr [Str ''present'', Str ''missing'', Str ''afile'', Str ''lib/components'',
                Bool True],
           ''/app'')],
       extensions = [''.vue''],
       srcDir = ''/app'',
       globalOption = Undefined \<rparr>"

definition warnDisk :: env where
  "warnDisk =
     (exampleEnv [])\<lparr>statSync :=
        (\<lambda>p. if p = ''/app/afile'' then Stats False
             else if p \<in> set [''/app/present'', ''/app/components''] then Stats True
             else StatThrows)\<rparr>"

definition warnResolved :: moduleState where
  "warnResolved = snd (app_resolve warnDisk warnOptions (setup_module [] []))"

text \<open>A project that configures only \<open>lib/components\<close>, missing on disk.\<close>

definition libOptions :: nuxtOptions where
  "libOptions =
     \<lparr> layers = [(Arr [Str ''lib/components''], ''/app'')],
       extensions = [''.vue''],
       srcDir = ''/app'',
       globalOption = Undefined \<rparr>"

text \<open>A project of two layers, both with the default configuration.\<close>

definition twoLayers :: nuxtOptions where
  "twoLayers =
     \<lparr> layers = [(Bool True, ''/app''), (Bool True, ''/base/layer'')],
       extensions = [''.vue''],
       srcDir = ''/app'',
       globalOption = Undefined \<rparr>"

section \<open>Facts about the helpers\<close>

text \<open>The comparator is the difference of the sort keys of its operands.\<close>

lemma compareDirByPathLength_key:
  "pathOf a = Some pa \<Longrightarrow> pathOf b = Some pb \<Longrightarrow>
   compareDirByPathLength a b = Inr ((- int (dirDepth a)) - (- int (dirDepth b)))"
  by (simp add: compareDirByPathLength_def dirDepth_def)

lemma collect_append:
  "collect (xs @ ys) =
     (case collect xs of Inl e \<Rightarrow> Inl e
      | Inr vs \<Rightarrow> (case collect ys of Inl e \<Rightarrow> Inl e | Inr ws \<Rightarrow> Inr (vs @ ws)))"
  by (induction xs rule: collect.induct) (auto split: sum.splits)

lemma normalizeDirs_skip_empty:
  assumes "normalizeDirs E d cwd = Inr (Arr [])"
  shows "normalizeDirs E (Arr (xs @ d # ys)) cwd = normalizeDirs E (Arr (xs @ ys)) cwd"
  using assms by (auto simp: collect_append flat_def split: sum.splits)

lemma tracks_iff:
  "tracks fPath dir \<longleftrightarrow> (\<exists>p. get dir ''path'' = Str p \<and> startsWith fPath p)"
  by (cases "get dir ''path''") (simp_all add: tracks_def)

lemma tracks_truthy: "tracks fPath dir \<Longrightarrow> truthy dir"
  by (cases dir) (auto simp: tracks_def get_def field_def)

lemma exampleEnv_resolve:
  "resolve (exampleEnv ex) cwd (CHR ''c'' # p) = cwd @ ''/'' @ CHR ''c'' # p"
  by (simp add: exampleEnv_def startsWith_def)

section \<open>The default directories\<close>

text \<open>
  Claim C1. For a source root \<open>cwd\<close> against which \<open>resolve\<close> joins the two default
  names with a slash, \<open>normalizeDirs\<close> applied to \<open>true\<close> or \<open>undefined\<close> returns
  exactly two descriptors in this order: the path \<open>cwd + '/components/global'\<close>
  marked global, then the path \<open>cwd + '/components'\<close> without a global mark.
\<close>

theorem normalizeDirs_default:
  assumes "dir = Bool True \<or> dir = Undefined"
    and "resolve E cwd ''components/global'' = cwd @ ''/components/global''"
    and "resolve E cwd ''components'' = cwd @ ''/components''"
  shows "normalizeDirs E dir cwd =
           Inr (Arr [Obj [(''path'', Str (cwd @ ''/components/global'')), (''global'', Bool True)],
                     Obj [(''path'', Str (cwd @ ''/components''))]])"
  using assms by (auto simp: defaultDirs_def)

text \<open>The example of the specification: source root \<open>/app\<close>.\<close>

theorem normalizeDirs_default_app:
  "normalizeDirs (exampleEnv []) (Bool True) ''/app'' =
     Inr (Arr [Obj [(''path'', Str ''/app/components/global''), (''global'', Bool True)],
               Obj [(''path'', Str ''/app/components'')]])
   \<and> normalizeDirs (exampleEnv []) Undefined ''/app'' =
     Inr (Arr [Obj [(''path'', Str ''/app/components/global''), (''global'', Bool True)],
               Obj [(''path'', Str ''/app/components'')]])"
proof -
  have g: "resolve (exampleEnv []) ''/app'' ''components/global'' = ''/app'' @ ''/components/global''"
    by (simp add: exampleEnv_resolve)
  have c: "resolve (exampleEnv []) ''/app'' ''components'' = ''/app'' @ ''/components''"
    by (simp add: exampleEnv_resolve)
  have t: "Bool True = Bool True \<or> Bool True = Undefined" by simp
  have u: "Undefined = Bool True \<or> Undefined = Undefined" by simp
  show ?thesis
    using normalizeDirs_default [OF t g c] normalizeDirs_default [OF u g c] by simp
qed

section \<open>Falsy configuration values\<close>

text \<open>
  Claim C10. A falsy configuration value other than \<open>undefined\<close> and the empty string
  (\<open>false\<close>, \<open>null\<close>, \<open>0\<close>) is normalised to the empty list, and such an entry inside
  a configuration list contributes no descriptor: the list without it has the same
  result.
\<close>

theorem normalizeDirs_falsy:
  assumes "\<not> truthy dir" and "dir \<noteq> Undefined" and "dir \<noteq> Str []"
  shows "normalizeDirs E dir cwd = Inr (Arr []) \<and>
         normalizeDirs E (Arr (xs @ dir # ys)) cwd = normalizeDirs E (Arr (xs @ ys)) cwd"
proof -
  have e: "normalizeDirs E dir cwd = Inr (Arr [])"
    using assms by (cases dir) auto
  from e normalizeDirs_skip_empty [OF e] show ?thesis by simp
qed

theorem normalizeDirs_falsy_null:
  "\<not> truthy Null \<and> Null \<noteq> Undefined \<and> Null \<noteq> Str [] \<and>
   normalizeDirs (exampleEnv []) Null ''/app'' = Inr (Arr []) \<and>
   normalizeDirs (exampleEnv []) (Arr ([Str ''a''] @ Null # [Bool False])) ''/app'' =
     normalizeDirs (exampleEnv []) (Arr ([Str ''a''] @ [Bool False])) ''/app''"
proof -
  have a: "\<not> truthy Null" by simp
  have b: "Null \<noteq> Undefined" by simp
  have c: "Null \<noteq> Str []" by simp
  show ?thesis
    using a b c normalizeDirs_falsy [OF a b c, of "exampleEnv []" "''/app''" "[Str ''a'']" "[Bool False]"]
    by blast
qed

section \<open>The read accessor\<close>

text \<open>
  Claim C5. \<open>getComponents\<close> called with \<open>client\<close> or \<open>server\<close> returns the
  components of the registry whose mode is that argument or \<open>all\<close>, in the order of
  the registry; called with \<open>all\<close> or without an argument it returns the registry
  list unchanged.
\<close>

theorem getComponents_mode:
  "(m = Client \<or> m = Server \<longrightarrow>
      getComponents st (Some m) =
        filter (\<lambda>c. mode c = Some m \<or> mode c = Some AllModes) (components st))
   \<and> getComponents st (Some AllModes) = components st
   \<and> getComponents st None = components st"
  by (auto simp: getComponents_def)

theorem getComponents_mode_client:
  "getComponents
     ((setup_module [] [])\<lparr>components :=
        [\<lparr>pascalName = ''A'', filePath = ''/app/components/A.vue'', mode = Some Server\<rparr>,
         \<lparr>pascalName = ''B'', filePath = ''/app/components/B.vue'', mode = Some AllModes\<rparr>,
         \<lparr>pascalName = ''C'', filePath = ''/app/components/C.vue'', mode = Some Client\<rparr>]\<rparr>)
     (Some Client) =
     [\<lparr>pascalName = ''B'', filePath = ''/app/components/B.vue'', mode = Some AllModes\<rparr>,
      \<lparr>pascalName = ''C'', filePath = ''/app/components/C.vue'', mode = Some Client\<rparr>]"
  using getComponents_mode [of Client "(setup_module [] [])\<lparr>components :=
        [\<lparr>pascalName = ''A'', filePath = ''/app/components/A.vue'', mode = Some Server\<rparr>,
         \<lparr>pascalName = ''B'', filePath = ''/app/components/B.vue'', mode = Some AllModes\<rparr>,
         \<lparr>pascalName = ''C'', filePath = ''/app/components/C.vue'', mode = Some Client\<rparr>]\<rparr>"]
  by simp

section \<open>The watch handler\<close>

text \<open>
  Claim C4. The handler of \<open>builder:watch\<close> requests \<open>builder:generateApp\<close> exactly
  once when the event is \<open>add\<close> or \<open>unlink\<close> and the path, resolved against the
  source root, starts with the path of some tracked component directory; for any other
  event, or a path outside all tracked directories, it requests nothing.
\<close>

theorem builder_watch_requests:
  "generateAppRequests (builder_watch E N st event path) =
     generateAppRequests st +
       (if (event = ''add'' \<or> event = ''unlink'') \<and>
           (\<exists>dir \<in> set (componentDirs st). \<exists>p. get dir ''path'' = Str p \<and>
              startsWith (resolve E (srcDir N) path) p)
        then 1 else 0)"
proof -
  let ?f = "resolve E (srcDir N) path"
  have ex: "(\<exists>dir \<in> set (componentDirs st). \<exists>p. get dir ''path'' = Str p \<and> startsWith ?f p)
            \<longleftrightarrow> (\<exists>dir \<in> set (componentDirs st). tracks ?f dir)"
    by (simp add: tracks_iff)
  show ?thesis
  proof (cases "find (tracks ?f) (componentDirs st)")
    case None
    then have "\<not> (\<exists>dir \<in> set (componentDirs st). tracks ?f dir)"
      by (simp add: find_None_iff)
    with None ex show ?thesis by (simp add: builder_watch_def)
  next
    case (Some d)
    then have d: "d \<in> set (componentDirs st)" "tracks ?f d"
      by (auto simp: find_Some_iff)
    then have "\<exists>dir \<in> set (componentDirs st). tracks ?f dir" by blast
    with Some ex tracks_truthy [OF d(2)] show ?thesis by (simp add: builder_watch_def)
  qed
qed

text \<open>
  A tracked directory \<open>/app/components\<close> and source root \<open>/app\<close>: adding
  \<open>components/Foo.vue\<close> makes one request, adding \<open>pages/index.vue\<close> none, and a
  change of \<open>components/Foo.vue\<close> none.
\<close>

theorem builder_watch_requests_app:
  "generateAppRequests
     (builder_watch (exampleEnv [])
        \<lparr>layers = [], extensions = [], srcDir = ''/app'', globalOption = Undefined\<rparr>
        ((setup_module [] [])\<lparr>componentDirs := [Obj [(''path'', Str ''/app/components'')]]\<rparr>)
        ''add'' ''components/Foo.vue'') = 1
   \<and> generateAppRequests
     (builder_watch (exampleEnv [])
        \<lparr>layers = [], extensions = [], srcDir = ''/app'', globalOption = Undefined\<rparr>
        ((setup_module [] [])\<lparr>componentDirs := [Obj [(''path'', Str ''/app/components'')]]\<rparr>)
        ''add'' ''pages/index.vue'') = 0
   \<and> generateAppRequests
     (builder_watch (exampleEnv [])
        \<lparr>layers = [], extensions = [], srcDir = ''/app'', globalOption = Undefined\<rparr>
        ((setup_module [] [])\<lparr>componentDirs := [Obj [(''path'', Str ''/app/components'')]]\<rparr>)
        ''change'' ''components/Foo.vue'') = 0"
  using
    builder_watch_requests [of "exampleEnv []"
        "\<lparr>layers = [], extensions = [], srcDir = ''/app'', globalOption = Undefined\<rparr>"
        "(setup_module [] [])\<lparr>componentDirs := [Obj [(''path'', Str ''/app/components'')]]\<rparr>"
        "''add''" "''components/Foo.vue''"]
    builder_watch_requests [of "exampleEnv []"
        "\<lparr>layers = [], extensions = [], srcDir = ''/app'', globalOption = Undefined\<rparr>"
        "(setup_module [] [])\<lparr>componentDirs := [Obj [(''path'', Str ''/app/components'')]]\<rparr>"
        "''add''" "''pages/index.vue''"]
    builder_watch_requests [of "exampleEnv []"
        "\<lparr>layers = [], extensions = [], srcDir = ''/app'', globalOption = Undefined\<rparr>"
        "(setup_module [] [])\<lparr>componentDirs := [Obj [(''path'', Str ''/app/components'')]]\<rparr>"
        "''change''" "''components/Foo.vue''"]
  by (simp add: setup_module_def get_def field_def exampleEnv_def startsWith_def)

section \<open>The registry\<close>

text \<open>
  Claim C8. The registry starts empty and is only replaced wholesale: the handler of
  \<open>app:templates\<close> assigns the new list in one step after the scan and the
  \<open>components:extend\<close> hook both returned; when the scanner or the hook fails, the
  failure is the result of the handler and the state, hence the registry and what
  \<open>getComponents\<close> answers, is the one before. The other handlers leave the registry
  alone.
\<close>

theorem registry_replaced_wholesale:
  "components (setup_module t c) = []
   \<and> getComponents (setup_module t c) m = []
   \<and> (\<forall>e. scanComponents E (componentDirs st) (srcDir N) = Inl e \<longrightarrow>
         app_templates E N st = (Some e, st))
   \<and> (\<forall>new e. scanComponents E (componentDirs st) (srcDir N) = Inr new \<and>
         hookComponentsExtend E new = Inl e \<longrightarrow> app_templates E N st = (Some e, st))
   \<and> (\<forall>new ext. scanComponents E (componentDirs st) (srcDir N) = Inr new \<and>
         hookComponentsExtend E new = Inr ext \<longrightarrow>
         app_templates E N st = (None, st\<lparr>components := ext\<rparr>))
   \<and> components (snd (app_resolve E N st)) = components st
   \<and> components (builder_watch E N st event path) = components st"
  by (auto simp: setup_module_def getComponents_def app_templates_def app_resolve_def
        builder_watch_def Let_def split: option.splits sum.splits prod.splits)

text \<open>
  A registry holding one component: a failing scanner, then a failing hook, leave it
  as it was; a scan that succeeds replaces it.
\<close>

theorem registry_replaced_wholesale_runs:
  "app_templates ((exampleEnv [])\<lparr>scanComponents := (\<lambda>dirs src. Inl (ScanError ''scan''))\<rparr>)
     \<lparr>layers = [], extensions = [], srcDir = ''/app'', globalOption = Undefined\<rparr>
     ((setup_module [] [])\<lparr>components :=
        [\<lparr>pascalName = ''A'', filePath = ''/app/components/A.vue'', mode = Some AllModes\<rparr>]\<rparr>)
   = (Some (ScanError ''scan''),
      (setup_module [] [])\<lparr>components :=
        [\<lparr>pascalName = ''A'', filePath = ''/app/components/A.vue'', mode = Some AllModes\<rparr>]\<rparr>)
   \<and> app_templates ((exampleEnv [])\<lparr>hookComponentsExtend := (\<lambda>cs. Inl (HookError ''extend''))\<rparr>)
     \<lparr>layers = [], extensions = [], srcDir = ''/app'', globalOption = Undefined\<rparr>
     ((setup_module [] [])\<lparr>components :=
        [\<lparr>pascalName = ''A'', filePath = ''/app/components/A.vue'', mode = Some AllModes\<rparr>]\<rparr>)
   = (Some (HookError ''extend''),
      (setup_module [] [])\<lparr>components :=
        [\<lparr>pascalName = ''A'', filePath = ''/app/components/A.vue'', mode = Some AllModes\<rparr>]\<rparr>)
   \<and> app_templates (exampleEnv [])
     \<lparr>layers = [], extensions = [], srcDir = ''/app'', globalOption = Undefined\<rparr>
     ((setup_module [] [])\<lparr>components :=
        [\<lparr>pascalName = ''A'', filePath = ''/app/components/A.vue'', mode = Some AllModes\<rparr>]\<rparr>)
   = (None, (setup_module [] [])\<lparr>components := []\<rparr>)"
  using
    registry_replaced_wholesale [of "[]" "[]" None
      "(exampleEnv [])\<lparr>scanComponents := (\<lambda>dirs src. Inl (ScanError ''scan''))\<rparr>"
      "(setup_module [] [])\<lparr>components :=
        [\<lparr>pascalName = ''A'', filePath = ''/app/components/A.vue'', mode = Some AllModes\<rparr>]\<rparr>"
      "\<lparr>layers = [], extensions = [], srcDir = ''/app'', globalOption = Undefined\<rparr>"]
    registry_replaced_wholesale [of "[]" "[]" None
      "(exampleEnv [])\<lparr>hookComponentsExtend := (\<lambda>cs. Inl (HookError ''extend''))\<rparr>"
      "(setup_module [] [])\<lparr>components :=
        [\<lparr>pascalName = ''A'', filePath = ''/app/components/A.vue'', mode = Some AllModes\<rparr>]\<rparr>"
      "\<lparr>layers = [], extensions = [], srcDir = ''/app'', globalOption = Undefined\<rparr>"]
    registry_replaced_wholesale [of "[]" "[]" None
      "exampleEnv []"
      "(setup_module [] [])\<lparr>components :=
        [\<lparr>pascalName = ''A'', filePath = ''/app/components/A.vue'', mode = Some AllModes\<rparr>]\<rparr>"
      "\<lparr>layers = [], extensions = [], srcDir = ''/app'', globalOption = Undefined\<rparr>"]
  by (simp add: exampleEnv_def setup_module_def)

section \<open>Facts about normalizeDirs\<close>

lemma collect_map_Inr_id: "collect (map Inr vs) = Inr vs"
  by (induction vs) auto

lemma collect_Inr_D: "collect rs = Inr vs \<Longrightarrow> rs = map Inr vs"
  by (induction rs arbitrary: vs rule: collect.induct) (auto split: sum.splits)

lemma collect_Inr_iff: "collect rs = Inr vs \<longleftrightarrow> rs = map Inr vs"
  using collect_Inr_D collect_map_Inr_id by blast

lemma collect_map_Inr:
  assumes "collect (map f xs) = Inr vs" and "v \<in> set vs"
  shows "\<exists>x \<in> set xs. f x = Inr v"
proof -
  from assms(1) have "map f xs = map Inr vs" by (simp add: collect_Inr_iff)
  then have "set (map f xs) = set (map Inr vs)" by simp
  moreover from assms(2) have "Inr v \<in> set (map Inr vs)" by simp
  ultimately have "Inr v \<in> set (map f xs)" by simp
  then show ?thesis by auto
qed

lemma filterPath_append:
  "filterPath (xs @ ys) =
     (case filterPath xs of Inl e \<Rightarrow> Inl e
      | Inr ks \<Rightarrow> (case filterPath ys of Inl e \<Rightarrow> Inl e | Inr ls \<Rightarrow> Inr (ks @ ls)))"
  by (induction xs) (auto split: sum.splits)

lemma filterPath_drop:
  assumes "map_of fs ''path'' = None"
  shows "filterPath (xs @ Obj fs # ys) = filterPath (xs @ ys)"
  using assms by (simp add: filterPath_append split: sum.splits)

lemma resolveDirPath_path:
  "resolveDirPath E cwd d = Inr r \<Longrightarrow> \<exists>p. pathOf r = Some p"
  by (auto simp: resolveDirPath_def AList.update_conv' split: sum.splits jsval.splits)

lemma normalizeObject_descriptors:
  assumes "normalizeObject E dir cwd = Inr v"
  shows "\<exists>ds. v = Arr ds \<and> (\<forall>d \<in> set ds. \<exists>p. pathOf d = Some p)"
proof -
  from assms obtain ds dirs rs where
    rs: "collect (map (resolveDirPath E cwd) dirs) = Inr rs" and v: "v = Arr rs"
    by (auto simp: normalizeObject_def split: sum.splits)
  have "\<exists>p. pathOf r = Some p" if "r \<in> set rs" for r
    using collect_map_Inr [OF rs that] resolveDirPath_path by blast
  with v show ?thesis by blast
qed

lemma sortDirs_set: "sortDirs xs = Inr ss \<Longrightarrow> set ss = set xs"
  by (auto simp: sortDirs_def split: if_splits)

lemma flat_set: "set (flat rs) = (\<Union>r \<in> set rs. set (flat1 r))"
  by (simp add: flat_def)

lemma normalizeDirs_descriptors:
  "normalizeDirs E dir cwd = Inr v \<Longrightarrow> \<forall>d \<in> set (flat1 v). \<exists>p. pathOf d = Some p"
proof (induction E dir cwd arbitrary: v rule: normalizeDirs.induct)
  case (1 E ds cwd)
  from "1.prems" obtain rs ss where
    rs: "collect (map (\<lambda>d. normalizeDirs E d cwd) ds) = Inr rs"
    and ss: "sortDirs (flat rs) = Inr ss" and v: "v = Arr ss"
    by (auto split: sum.splits)
  have "\<exists>p. pathOf d = Some p" if "d \<in> set ss" for d
  proof -
    from that ss have "d \<in> set (flat rs)" by (simp add: sortDirs_set)
    then obtain r where r: "r \<in> set rs" "d \<in> set (flat1 r)" by (auto simp: flat_set)
    from collect_map_Inr [OF rs r(1)] obtain x where
      x: "x \<in> set ds" "normalizeDirs E x cwd = Inr r" by blast
    from "1.IH" [OF x] r(2) show ?thesis by blast
  qed
  with v show ?case by simp
next
  case (7 E n cwd)
  then show ?case
    using normalizeObject_descriptors [of E "Num n" cwd v] by (auto split: if_splits)
next
  case (8 E fs cwd)
  then show ?case
    using normalizeObject_descriptors [of E "Obj fs" cwd v] by auto
qed (auto simp: defaultDirs_def)

lemma normalizeDirs_array_unless_string:
  assumes "normalizeDirs E dir cwd = Inr v" and "\<forall>s. dir \<noteq> Str s"
  shows "\<exists>ds. v = Arr ds"
  using assms normalizeObject_descriptors [of E dir cwd v]
proof (cases dir)
  case (Bool b)
  with assms show ?thesis by (cases b) (auto simp: defaultDirs_def)
qed (auto simp: defaultDirs_def split: sum.splits if_splits)

lemma normalizeObject_no_path:
  assumes "map_of fs ''path'' = None" and "\<not> truthy (field fs ''dirs'')"
  shows "normalizeObject E (Obj fs) cwd = Inr (Arr [])"
  using assms by (auto simp: normalizeObject_def dirsOf_def field_def split: option.splits)

lemma normalizeObject_dirs_drop:
  assumes "map_of fs ''path'' = None"
    and "field gs ''dirs'' = Arr (xs @ Obj fs # ys)"
    and "field hs ''dirs'' = Arr (xs @ ys)"
  shows "normalizeObject E (Obj gs) cwd = normalizeObject E (Obj hs) cwd"
  using assms filterPath_drop [OF assms(1), of "map wrapString xs" "map wrapString ys"]
  by (auto simp: normalizeObject_def dirsOf_def field_def split: option.splits)

section \<open>Facts about the resolver\<close>

lemma map_of_foldl_update:
  "map_of (foldl (\<lambda>acc (k, v). AList.update k v acc) acc kvs) x =
     (case map_of (rev kvs) x of None \<Rightarrow> map_of acc x | Some v \<Rightarrow> Some v)"
proof (induction kvs arbitrary: acc)
  case Nil
  then show ?case by simp
next
  case (Cons kv kvs)
  obtain k v where kv: "kv = (k, v)" by (cases kv)
  show ?case
    by (auto simp: Cons.IH kv AList.update_conv' map_add_def split: option.splits)
qed

lemma field_objectLiteral:
  "field (objectLiteral kvs) k = field (rev kvs) k"
  by (simp add: field_def objectLiteral_def map_of_foldl_update split: option.splits)

lemma get_resolvedDir:
  "get (resolvedDir N fs dirPath exts ign tr) ''path'' = Str dirPath"
  "get (resolvedDir N fs dirPath exts ign tr) ''enabled'' = Bool True"
  "get (resolvedDir N fs dirPath exts ign tr) ''transpile'' =
     Bool (case tr of None \<Rightarrow> strIncludes dirPath ''node_modules'' | Some b \<Rightarrow> b)"
  by (simp_all add: get_def resolvedDir_def field_objectLiteral) (simp_all add: field_def)

lemma resolveOptions_success:
  assumes "resolveOptions E N fs0 = (ws, Inr d)"
  shows "\<exists>p. field fs0 ''path'' = Str p
           \<and> get d ''path'' = Str (resolveAlias E p)
           \<and> get d ''enabled'' = Bool True
           \<and> get d ''transpile'' =
               Bool (case field fs0 ''transpile'' of
                       Bool b \<Rightarrow> b
                     | _ \<Rightarrow> strIncludes (resolveAlias E p) ''node_modules'')
           \<and> ws = (if \<not> isDirectory E (resolveAlias E p) \<and> \<not> DEFAULT_COMPONENTS_DIRS_RE p
                   then [warning (resolveAlias E p)] else [])"
proof -
  from assms obtain p where p: "field fs0 ''path'' = Str p"
    by (cases "field fs0 ''path''") (auto simp: resolveOptions_def)
  from assms p obtain exts where exts: "extensionsOf N fs0 = Inr exts"
    by (cases "extensionsOf N fs0") (auto simp: resolveOptions_def Let_def)
  let ?fs = "AList.update ''level'' (levelOf E fs0) fs0"
  from assms p exts obtain ign where ign: "ignoreOf ?fs = Inr ign"
    by (cases "ignoreOf ?fs") (auto simp: resolveOptions_def Let_def)
  let ?tr = "case field fs0 ''transpile'' of Bool b \<Rightarrow> Some b | _ \<Rightarrow> None"
  from assms p exts ign have
    d: "d = resolvedDir N ?fs (resolveAlias E p) exts ign ?tr"
    and ws: "ws = (if \<not> isDirectory E (resolveAlias E p) \<and> \<not> DEFAULT_COMPONENTS_DIRS_RE p
                   then [warning (resolveAlias E p)] else [])"
    by (auto simp: resolveOptions_def Let_def)
  have tr: "(case ?tr of None \<Rightarrow> strIncludes (resolveAlias E p) ''node_modules'' | Some b \<Rightarrow> b)
            = (case field fs0 ''transpile'' of Bool b \<Rightarrow> b
               | _ \<Rightarrow> strIncludes (resolveAlias E p) ''node_modules'')"
    by (cases "field fs0 ''transpile''") simp_all
  show ?thesis
    using p ws by (simp add: d get_resolvedDir tr)
qed

lemma resolveDir_success:
  assumes "resolveDir E N dir = (ws, Inr d)"
  shows "\<exists>p. field (dirOptionsOf dir) ''path'' = Str p
           \<and> get d ''path'' = Str (resolveAlias E p)
           \<and> get d ''enabled'' = Bool True
           \<and> get d ''transpile'' =
               Bool (case field (dirOptionsOf dir) ''transpile'' of
                       Bool b \<Rightarrow> b
                     | _ \<Rightarrow> strIncludes (resolveAlias E p) ''node_modules'')
           \<and> ws = (if \<not> isDirectory E (resolveAlias E p) \<and> \<not> DEFAULT_COMPONENTS_DIRS_RE p
                   then [warning (resolveAlias E p)] else [])"
  using assms resolveOptions_success [of E N "dirOptionsOf dir" ws d]
  by (auto simp: resolveDir_def split: if_splits)

lemma resolveDirs_success:
  assumes "resolveDirs E N ds = (ws, Inr rs)"
  shows "\<exists>wss. length wss = length ds \<and> length rs = length ds \<and> ws = concat wss
           \<and> (\<forall>i < length ds. resolveDir E N (ds ! i) = (wss ! i, Inr (rs ! i)))"
  using assms
proof (induction ds arbitrary: ws rs)
  case Nil
  then show ?case by simp
next
  case (Cons d ds)
  from Cons.prems obtain w r ws' rs' where
    d: "resolveDir E N d = (w, Inr r)" and ds: "resolveDirs E N ds = (ws', Inr rs')"
    and ws: "ws = w @ ws'" and rs: "rs = r # rs'"
    by (auto split: prod.splits sum.splits)
  from Cons.IH [OF ds] obtain wss where
    wss: "length wss = length ds" "length rs' = length ds" "ws' = concat wss"
      "\<forall>i < length ds. resolveDir E N (ds ! i) = (wss ! i, Inr (rs' ! i))"
    by blast
  have "\<forall>i < length (d # ds). resolveDir E N ((d # ds) ! i) = ((w # wss) ! i, Inr (rs ! i))"
    using d wss(4) rs by (auto simp: nth_Cons split: nat.splits)
  with wss ws rs show ?case
    by (intro exI [of _ "w # wss"]) simp
qed

lemma resolveDirs_enabled:
  assumes "resolveDirs E N ds = (ws, Inr rs)" and "r \<in> set rs"
  shows "get r ''enabled'' = Bool True \<and> (\<exists>b. get r ''transpile'' = Bool b)
         \<and> (\<exists>p. get r ''path'' = Str p)"
proof -
  from resolveDirs_success [OF assms(1)] obtain wss where
    wss: "length rs = length ds"
      "\<forall>i < length ds. resolveDir E N (ds ! i) = (wss ! i, Inr (rs ! i))"
    by blast
  from assms(2) obtain i where i: "i < length rs" "rs ! i = r"
    by (auto simp: in_set_conv_nth)
  with wss have "resolveDir E N (ds ! i) = (wss ! i, Inr r)" by auto
  from resolveDir_success [OF this] show ?thesis by auto
qed

lemma app_resolve_success:
  assumes "app_resolve E N st = (None, st')"
  shows "\<exists>entries ws rs. resolverInput E N = Inr entries
           \<and> resolveDirs E N entries = (ws, Inr rs)
           \<and> console st' = console st @ ws
           \<and> componentDirs st' = orderDirs rs
           \<and> buildTranspile st' = buildTranspile st @
                map (\<lambda>d. get d ''path'')
                  (filter (\<lambda>d. get d ''transpile'' = Bool True) (componentDirs st'))"
proof -
  from assms obtain entries ws rs where
    e: "resolverInput E N = Inr entries" and r: "resolveDirs E N entries = (ws, Inr rs)"
    by (auto simp: app_resolve_def split: sum.splits prod.splits)
  have en: "filter (\<lambda>d. truthy (get d ''enabled'')) rs = rs"
    using resolveDirs_enabled [OF r] by (simp add: filter_id_conv)
  have tr: "filter (\<lambda>d. truthy (get d ''transpile'')) (orderDirs rs)
              = filter (\<lambda>d. get d ''transpile'' = Bool True) (orderDirs rs)"
  proof (rule filter_cong [OF refl])
    fix d assume "d \<in> set (orderDirs rs)"
    then have "d \<in> set rs" by (auto simp: orderDirs_def)
    from resolveDirs_enabled [OF r this] show
      "truthy (get d ''transpile'') = (get d ''transpile'' = Bool True)" by auto
  qed
  from assms e r en tr have
    "st' = st\<lparr>console := console st @ ws, componentDirs := orderDirs rs,
               buildTranspile := buildTranspile st @
                 map (\<lambda>d. get d ''path'')
                   (filter (\<lambda>d. get d ''transpile'' = Bool True) (orderDirs rs))\<rparr>"
    by (simp add: app_resolve_def Let_def)
  with e r show ?thesis
    by (intro exI [of _ entries] exI [of _ ws] exI [of _ rs]) simp
qed

lemma allDirsOf_success:
  assumes "allDirsOf E N = Inr ds0"
  shows "\<exists>lrs. collect (map (\<lambda>(cfg, src). normalizeDirs E cfg src) (layers N)) = Inr lrs
           \<and> length lrs = length (layers N)
           \<and> (\<forall>i < length (layers N).
                 normalizeDirs E (fst (layers N ! i)) (snd (layers N ! i)) = Inr (lrs ! i))
           \<and> ds0 = concat (map flat1 lrs)"
proof -
  from assms obtain lrs where
    c: "collect (map (\<lambda>(cfg, src). normalizeDirs E cfg src) (layers N)) = Inr lrs"
    and d: "ds0 = concat (map flat1 lrs)"
    by (auto simp: allDirsOf_def flat_def split: sum.splits)
  from c have m: "map (\<lambda>(cfg, src). normalizeDirs E cfg src) (layers N) = map Inr lrs"
    by (simp add: collect_Inr_iff)
  then have l: "length lrs = length (layers N)"
    using length_map by metis
  have "normalizeDirs E (fst (layers N ! i)) (snd (layers N ! i)) = Inr (lrs ! i)"
    if "i < length (layers N)" for i
  proof -
    from that have e1: "map (\<lambda>(cfg, src). normalizeDirs E cfg src) (layers N) ! i
                      = normalizeDirs E (fst (layers N ! i)) (snd (layers N ! i))"
      by (simp add: case_prod_beta)
    from that l have e2: "map Inr lrs ! i = Inr (lrs ! i)" by simp
    from m have e3: "map (\<lambda>(cfg, src). normalizeDirs E cfg src) (layers N) ! i
                      = map Inr lrs ! i"
      by (rule arg_cong)
    show ?thesis
      by (rule trans [OF e1 [symmetric] trans [OF e3 e2]])
  qed
  with c l d show ?thesis by blast
qed

lemma resolverInput_success:
  assumes "resolverInput E N = Inr entries"
  shows "\<exists>ds0 ds. allDirsOf E N = Inr ds0 \<and> hookComponentsDirs E ds0 = Inr ds
           \<and> entries = filter isPureObjectOrString ds"
  using assms by (auto simp: resolverInput_def split: sum.splits)

lemma mset_orderDirs: "mset (orderDirs rs) = mset rs"
  by (simp add: orderDirs_def union_commute)

lemma sortDirs_sort_key:
  "sortDirs xs = Inr ss \<Longrightarrow> ss = sort_key (\<lambda>d. - int (dirDepth d)) xs"
proof -
  have "length xs \<le> 1 \<Longrightarrow> sort_key (\<lambda>d. - int (dirDepth d)) xs = xs"
    by (cases xs) auto
  then show "sortDirs xs = Inr ss \<Longrightarrow> ss = sort_key (\<lambda>d. - int (dirDepth d)) xs"
    by (auto simp: sortDirs_def split: if_splits)
qed

lemma sorted_by_depth:
  "sorted_wrt (\<lambda>a b. dirDepth b \<le> dirDepth a) (sort_key (\<lambda>d. - int (dirDepth d)) xs)"
proof -
  have "sorted (map (\<lambda>d. - int (dirDepth d)) (sort_key (\<lambda>d. - int (dirDepth d)) xs))"
    by (rule sorted_sort_key)
  then show ?thesis by (simp add: sorted_map)
qed

lemma partition_order:
  assumes "cd = filter (\<lambda>d. \<not> P d) rs @ filter P rs"
    and "i < length cd" and "j < length cd" and "\<not> P (cd ! i)" and "P (cd ! j)"
  shows "i < j"
proof -
  let ?A = "filter (\<lambda>d. \<not> P d) rs"
  have i: "i < length ?A"
  proof (rule ccontr)
    assume "\<not> i < length ?A"
    with assms(1,2) have "cd ! i = filter P rs ! (i - length ?A)"
      and "i - length ?A < length (filter P rs)"
      by (auto simp: nth_append)
    then have "cd ! i \<in> set (filter P rs)"
      using nth_mem by metis
    with assms(4) show False by simp
  qed
  have j: "\<not> j < length ?A"
  proof
    assume "j < length ?A"
    with assms(1) have "cd ! j = ?A ! j" by (simp add: nth_append)
    with \<open>j < length ?A\<close> have "cd ! j \<in> set ?A"
      using nth_mem by metis
    with assms(5) show False by simp
  qed
  from i j show ?thesis by simp
qed

lemma pathOf_get: "pathOf d = Some p \<Longrightarrow> get d ''path'' = Str p"
  by (cases d) (auto simp: get_def field_def split: option.splits jsval.splits)

section \<open>The shape of the normalizer's result\<close>

text \<open>
  Claim C3. The claim is that \<open>normalizeDirs\<close> answers a flat sequence of descriptors
  for every input and never a bare value. For a string the source (lines 50-54) returns
  the descriptor itself, not a one-element array: with source root \<open>/app\<close> the string
  \<open>foo\<close> gives the bare object \<open>{ path: '/app/foo' }\<close>. Every other branch returns
  an array (\<open>normalizeDirs_array_unless_string\<close>).
\<close>

theorem normalizeDirs_string_bare:
  "normalizeDirs (exampleEnv []) (Str ''foo'') ''/app'' = Inr (Obj [(''path'', Str ''/app/foo'')])"
  by code_simp

section \<open>Entries without a path\<close>

text \<open>
  Claim C9. An object entry without a \<open>path\<close> property is dropped by
  \<open>normalizeDirs\<close> without an error: alone (when it does not carry a \<open>dirs\<close> list of
  its own) it gives the empty list, inside a configuration list it contributes
  nothing, and inside the \<open>dirs\<close> list of the options object it is filtered out. Every
  descriptor of every result of \<open>normalizeDirs\<close> has a string \<open>path\<close>.
\<close>

theorem normalizeDirs_drops_pathless:
  assumes "map_of fs ''path'' = None"
  shows "(\<not> truthy (field fs ''dirs'') \<longrightarrow>
            normalizeDirs E (Obj fs) cwd = Inr (Arr [])
          \<and> normalizeDirs E (Arr (xs @ Obj fs # ys)) cwd = normalizeDirs E (Arr (xs @ ys)) cwd)
       \<and> (field gs ''dirs'' = Arr (xs @ Obj fs # ys) \<and> field hs ''dirs'' = Arr (xs @ ys) \<longrightarrow>
            normalizeDirs E (Obj gs) cwd = normalizeDirs E (Obj hs) cwd)
       \<and> (\<forall>dir v. normalizeDirs E dir cwd = Inr v \<longrightarrow>
            (\<forall>d \<in> set (flat1 v). \<exists>p. get d ''path'' = Str p))"
proof (intro conjI impI allI)
  assume d: "\<not> truthy (field fs ''dirs'')"
  from normalizeObject_no_path [OF assms d]
  show e: "normalizeDirs E (Obj fs) cwd = Inr (Arr [])" by simp
  from normalizeDirs_skip_empty [OF e]
  show "normalizeDirs E (Arr (xs @ Obj fs # ys)) cwd = normalizeDirs E (Arr (xs @ ys)) cwd" .
next
  assume "field gs ''dirs'' = Arr (xs @ Obj fs # ys) \<and> field hs ''dirs'' = Arr (xs @ ys)"
  then show "normalizeDirs E (Obj gs) cwd = normalizeDirs E (Obj hs) cwd"
    using normalizeObject_dirs_drop [OF assms, of gs xs ys hs E cwd] by simp
next
  fix dir v
  assume "normalizeDirs E dir cwd = Inr v"
  from normalizeDirs_descriptors [OF this]
  show "\<forall>d \<in> set (flat1 v). \<exists>p. get d ''path'' = Str p"
    using pathOf_get by blast
qed

theorem normalizeDirs_drops_pathless_example:
  "map_of [(''global'', Bool True)] ''path'' = None
   \<and> normalizeDirs (exampleEnv []) (Obj [(''global'', Bool True)]) ''/app'' = Inr (Arr [])
   \<and> normalizeDirs (exampleEnv []) (Arr ([Str ''a''] @ Obj [(''global'', Bool True)] # [])) ''/app''
       = normalizeDirs (exampleEnv []) (Arr ([Str ''a''] @ [])) ''/app''
   \<and> normalizeDirs (exampleEnv [])
        (Obj [(''dirs'', Arr ([Str ''a''] @ Obj [(''global'', Bool True)] # []))]) ''/app''
       = normalizeDirs (exampleEnv []) (Obj [(''dirs'', Arr ([Str ''a''] @ []))]) ''/app''
   \<and> normalizeDirs (exampleEnv []) (Obj [(''dirs'', Arr ([Str ''a''] @ []))]) ''/app''
       = Inr (Arr [Obj [(''path'', Str ''/app/a'')]])
   \<and> (\<exists>p. get (Obj [(''path'', Str ''/app/a'')]) ''path'' = Str p)"
proof -
  have h: "map_of [(''global'', Bool True)] ''path'' = None" by simp
  have r: "normalizeDirs (exampleEnv []) (Obj [(''dirs'', Arr ([Str ''a''] @ []))]) ''/app''
       = Inr (Arr [Obj [(''path'', Str ''/app/a'')]])"
    by code_simp
  have f1: "\<not> truthy (field [(''global'', Bool True)] ''dirs'')"
    by (simp add: field_def)
  have f2: "field [(''dirs'', Arr ([Str ''a''] @ Obj [(''global'', Bool True)] # []))] ''dirs''
              = Arr ([Str ''a''] @ Obj [(''global'', Bool True)] # [])"
    by (simp add: field_def)
  have f3: "field [(''dirs'', Arr ([Str ''a''] @ []))] ''dirs'' = Arr ([Str ''a''] @ [])"
    by (simp add: field_def)
  from normalizeDirs_drops_pathless [OF h, of "exampleEnv []" "''/app''" "[Str ''a'']" "[]"
      "[(''dirs'', Arr ([Str ''a''] @ Obj [(''global'', Bool True)] # []))]"
      "[(''dirs'', Arr ([Str ''a''] @ []))]"]
  have t: "(\<not> truthy (field [(''global'', Bool True)] ''dirs'') \<longrightarrow>
            normalizeDirs (exampleEnv []) (Obj [(''global'', Bool True)]) ''/app'' = Inr (Arr [])
          \<and> normalizeDirs (exampleEnv []) (Arr ([Str ''a''] @ Obj [(''global'', Bool True)] # []))
                ''/app''
              = normalizeDirs (exampleEnv []) (Arr ([Str ''a''] @ [])) ''/app'')
       \<and> (field [(''dirs'', Arr ([Str ''a''] @ Obj [(''global'', Bool True)] # []))] ''dirs''
              = Arr ([Str ''a''] @ Obj [(''global'', Bool True)] # [])
            \<and> field [(''dirs'', Arr ([Str ''a''] @ []))] ''dirs'' = Arr ([Str ''a''] @ []) \<longrightarrow>
            normalizeDirs (exampleEnv [])
              (Obj [(''dirs'', Arr ([Str ''a''] @ Obj [(''global'', Bool True)] # []))]) ''/app''
              = normalizeDirs (exampleEnv []) (Obj [(''dirs'', Arr ([Str ''a''] @ []))]) ''/app'')
       \<and> (\<forall>dir v. normalizeDirs (exampleEnv []) dir ''/app'' = Inr v \<longrightarrow>
            (\<forall>d \<in> set (flat1 v). \<exists>p. get d ''path'' = Str p))" .
  from t r have "\<forall>d \<in> set (flat1 (Arr [Obj [(''path'', Str ''/app/a'')]])).
                   \<exists>p. get d ''path'' = Str p"
    by blast
  then have g: "\<exists>p. get (Obj [(''path'', Str ''/app/a'')]) ''path'' = Str p"
    by simp
  from t h r f1 f2 f3 g show ?thesis by blast
qed

section \<open>The order of the directories\<close>

text \<open>
  Claim C2, as stated, fails: the sequences of the layers are concatenated without a
  sort across layers. Two layers with the default configuration, rooted at \<open>/app\<close> and
  \<open>/base/layer\<close>, resolve to directories of depths 3, 2, 4, 3, none of them under
  \<open>node_modules\<close>.
\<close>

theorem two_layers_not_by_depth:
  "fst (app_resolve (exampleEnv []) twoLayers (setup_module [] [])) = None
   \<and> map dirDepth (componentDirs (snd (app_resolve (exampleEnv []) twoLayers (setup_module [] []))))
       = [3, 2, 4, 3]
   \<and> \<not> sorted (rev (map dirDepth
          (componentDirs (snd (app_resolve (exampleEnv []) twoLayers (setup_module [] []))))))"
  by code_simp

text \<open>
  Claim C2, amended. \<open>normalizeDirs\<close> applied to a list returns the flattened
  descriptors of its elements stably sorted by decreasing number of path segments.
  The directories of all layers are the results of \<open>normalizeDirs\<close> on each layer,
  concatenated in layer order and not sorted against each other. After resolution the
  directory list is the resolved list, entry by entry in that order, with the
  directories whose path does not contain \<open>node_modules\<close> first and those whose path
  contains it last, each group in its prior order; so every directory under
  \<open>node_modules\<close> comes after every directory that is not, whatever their depths.
\<close>

theorem dirs_ordering:
  "(normalizeDirs E (Arr ds) cwd = Inr v \<longrightarrow>
      (\<exists>rs. collect (map (\<lambda>d. normalizeDirs E d cwd) ds) = Inr rs
         \<and> v = Arr (sort_key (\<lambda>d. - int (dirDepth d)) (flat rs))
         \<and> (\<exists>ss. v = Arr ss \<and> sorted_wrt (\<lambda>a b. dirDepth b \<le> dirDepth a) ss)))
   \<and> (allDirsOf E N = Inr all0 \<longrightarrow>
      (\<exists>lrs. collect (map (\<lambda>(cfg, src). normalizeDirs E cfg src) (layers N)) = Inr lrs
         \<and> length lrs = length (layers N)
         \<and> (\<forall>i < length (layers N).
               normalizeDirs E (fst (layers N ! i)) (snd (layers N ! i)) = Inr (lrs ! i))
         \<and> all0 = concat (map flat1 lrs)))
   \<and> (app_resolve E N st = (None, st') \<longrightarrow>
      (\<exists>ds0 allDirs entries ws rs.
           allDirsOf E N = Inr ds0
         \<and> hookComponentsDirs E ds0 = Inr allDirs
         \<and> entries = filter isPureObjectOrString allDirs
         \<and> resolveDirs E N entries = (ws, Inr rs)
         \<and> length rs = length entries
         \<and> (\<forall>i < length entries. \<exists>p.
               field (dirOptionsOf (entries ! i)) ''path'' = Str p
             \<and> get (rs ! i) ''path'' = Str (resolveAlias E p))
         \<and> componentDirs st' = filter (\<lambda>d. \<not> inNodeModules d) rs @ filter inNodeModules rs
         \<and> (\<forall>d \<in> set (componentDirs st'). \<exists>p. get d ''path'' = Str p
               \<and> inNodeModules d = strIncludes p ''node_modules'')
         \<and> (\<forall>i j. i < length (componentDirs st') \<and> j < length (componentDirs st')
               \<and> \<not> inNodeModules (componentDirs st' ! i)
               \<and> inNodeModules (componentDirs st' ! j) \<longrightarrow> i < j)))"
proof (intro conjI impI)
  assume "normalizeDirs E (Arr ds) cwd = Inr v"
  then obtain rs ss where
    rs: "collect (map (\<lambda>d. normalizeDirs E d cwd) ds) = Inr rs"
    and ss: "sortDirs (flat rs) = Inr ss" and v: "v = Arr ss"
    by (auto split: sum.splits)
  from sortDirs_sort_key [OF ss] v rs sorted_by_depth [of "flat rs"]
  show "\<exists>rs. collect (map (\<lambda>d. normalizeDirs E d cwd) ds) = Inr rs
         \<and> v = Arr (sort_key (\<lambda>d. - int (dirDepth d)) (flat rs))
         \<and> (\<exists>ss. v = Arr ss \<and> sorted_wrt (\<lambda>a b. dirDepth b \<le> dirDepth a) ss)"
    by auto
next
  assume "allDirsOf E N = Inr all0"
  from allDirsOf_success [OF this]
  show "\<exists>lrs. collect (map (\<lambda>(cfg, src). normalizeDirs E cfg src) (layers N)) = Inr lrs
         \<and> length lrs = length (layers N)
         \<and> (\<forall>i < length (layers N).
               normalizeDirs E (fst (layers N ! i)) (snd (layers N ! i)) = Inr (lrs ! i))
         \<and> all0 = concat (map flat1 lrs)" .
next
  assume "app_resolve E N st = (None, st')"
  from app_resolve_success [OF this] obtain entries ws rs where
    e: "resolverInput E N = Inr entries" and r: "resolveDirs E N entries = (ws, Inr rs)"
    and cd: "componentDirs st' = orderDirs rs"
    by blast
  from resolverInput_success [OF e] obtain ds0 allDirs where
    a: "allDirsOf E N = Inr ds0" and h: "hookComponentsDirs E ds0 = Inr allDirs"
    and f: "entries = filter isPureObjectOrString allDirs"
    by blast
  from resolveDirs_success [OF r] obtain wss where
    wss: "length rs = length entries"
      "\<forall>i < length entries. resolveDir E N (entries ! i) = (wss ! i, Inr (rs ! i))"
    by blast
  have each: "\<exists>p. field (dirOptionsOf (entries ! i)) ''path'' = Str p
               \<and> get (rs ! i) ''path'' = Str (resolveAlias E p)"
    if "i < length entries" for i
  proof -
    from wss(2) that have "resolveDir E N (entries ! i) = (wss ! i, Inr (rs ! i))" by simp
    from resolveDir_success [OF this] show ?thesis by blast
  qed
  have cd': "componentDirs st' = filter (\<lambda>d. \<not> inNodeModules d) rs @ filter inNodeModules rs"
    using cd by (simp add: orderDirs_def)
  have p: "\<exists>p. get d ''path'' = Str p \<and> inNodeModules d = strIncludes p ''node_modules''"
    if "d \<in> set (componentDirs st')" for d
  proof -
    from that cd' have "d \<in> set rs" by auto
    from resolveDirs_enabled [OF r this] show ?thesis
      by (auto simp: inNodeModules_def)
  qed
  have o: "i < j" if "i < length (componentDirs st')" "j < length (componentDirs st')"
      "\<not> inNodeModules (componentDirs st' ! i)" "inNodeModules (componentDirs st' ! j)" for i j
    using partition_order [OF cd' that] .
  from a h f r wss(1) each cd' p o
  show "\<exists>ds0 allDirs entries ws rs.
           allDirsOf E N = Inr ds0
         \<and> hookComponentsDirs E ds0 = Inr allDirs
         \<and> entries = filter isPureObjectOrString allDirs
         \<and> resolveDirs E N entries = (ws, Inr rs)
         \<and> length rs = length entries
         \<and> (\<forall>i < length entries. \<exists>p.
               field (dirOptionsOf (entries ! i)) ''path'' = Str p
             \<and> get (rs ! i) ''path'' = Str (resolveAlias E p))
         \<and> componentDirs st' = filter (\<lambda>d. \<not> inNodeModules d) rs @ filter inNodeModules rs
         \<and> (\<forall>d \<in> set (componentDirs st'). \<exists>p. get d ''path'' = Str p
               \<and> inNodeModules d = strIncludes p ''node_modules'')
         \<and> (\<forall>i j. i < length (componentDirs st') \<and> j < length (componentDirs st')
               \<and> \<not> inNodeModules (componentDirs st' ! i)
               \<and> inNodeModules (componentDirs st' ! j) \<longrightarrow> i < j)"
    by blast
qed

text \<open>
  The project of two layers: the list of the first layer is sorted by depth, the
  defaults of the second layer follow it although they are deeper than its last
  directory, and resolution moves the directory under \<open>node_modules\<close> to the end.
\<close>

theorem dirs_ordering_example:
  "normalizeDirs (exampleEnv []) (Arr [Str ''a'', Str ''node_modules/x/y/z'']) ''/app'' =
     Inr (Arr [Obj [(''path'', Str ''/app/node_modules/x/y/z'')],
               Obj [(''path'', Str ''/app/a'')]])
   \<and> allDirsOf (exampleEnv []) layeredOptions =
     Inr [Obj [(''path'', Str ''/app/node_modules/x/y/z'')],
          Obj [(''path'', Str ''/app/a'')],
          Obj [(''path'', Str ''/base/layer/components/global''), (''global'', Bool True)],
          Obj [(''path'', Str ''/base/layer/components'')]]
   \<and> app_resolve (exampleEnv []) layeredOptions (setup_module [] []) = (None, layeredResolved)
   \<and> map (\<lambda>d. get d ''path'') (componentDirs layeredResolved) =
       [Str ''/app/a'', Str ''/base/layer/components/global'',
        Str ''/base/layer/components'', Str ''/app/node_modules/x/y/z'']
   \<and> (\<exists>rs. collect (map (\<lambda>d. normalizeDirs (exampleEnv []) d ''/app'')
                [Str ''a'', Str ''node_modules/x/y/z'']) = Inr rs
         \<and> Arr [Obj [(''path'', Str ''/app/node_modules/x/y/z'')],
                 Obj [(''path'', Str ''/app/a'')]]
             = Arr (sort_key (\<lambda>d. - int (dirDepth d)) (flat rs))
         \<and> (\<exists>ss. Arr [Obj [(''path'', Str ''/app/node_modules/x/y/z'')],
                        Obj [(''path'', Str ''/app/a'')]] = Arr ss
               \<and> sorted_wrt (\<lambda>a b. dirDepth b \<le> dirDepth a) ss))
   \<and> (\<exists>lrs. collect (map (\<lambda>(cfg, src). normalizeDirs (exampleEnv []) cfg src)
                 (layers layeredOptions)) = Inr lrs
         \<and> length lrs = length (layers layeredOptions)
         \<and> (\<forall>i < length (layers layeredOptions).
               normalizeDirs (exampleEnv []) (fst (layers layeredOptions ! i))
                 (snd (layers layeredOptions ! i)) = Inr (lrs ! i))
         \<and> [Obj [(''path'', Str ''/app/node_modules/x/y/z'')],
             Obj [(''path'', Str ''/app/a'')],
             Obj [(''path'', Str ''/base/layer/components/global''), (''global'', Bool True)],
             Obj [(''path'', Str ''/base/layer/components'')]] = concat (map flat1 lrs))
   \<and> (\<exists>ds0 allDirs entries ws rs.
           allDirsOf (exampleEnv []) layeredOptions = Inr ds0
         \<and> hookComponentsDirs (exampleEnv []) ds0 = Inr allDirs
         \<and> entries = filter isPureObjectOrString allDirs
         \<and> resolveDirs (exampleEnv []) layeredOptions entries = (ws, Inr rs)
         \<and> length rs = length entries
         \<and> (\<forall>i < length entries. \<exists>p.
               field (dirOptionsOf (entries ! i)) ''path'' = Str p
             \<and> get (rs ! i) ''path'' = Str (resolveAlias (exampleEnv []) p))
         \<and> componentDirs layeredResolved =
             filter (\<lambda>d. \<not> inNodeModules d) rs @ filter inNodeModules rs
         \<and> (\<forall>d \<in> set (componentDirs layeredResolved). \<exists>p. get d ''path'' = Str p
               \<and> inNodeModules d = strIncludes p ''node_modules'')
         \<and> (\<forall>i j. i < length (componentDirs layeredResolved)
               \<and> j < length (componentDirs layeredResolved)
               \<and> \<not> inNodeModules (componentDirs layeredResolved ! i)
               \<and> inNodeModules (componentDirs layeredResolved ! j) \<longrightarrow> i < j))"
proof -
  have n: "normalizeDirs (exampleEnv []) (Arr [Str ''a'', Str ''node_modules/x/y/z'']) ''/app'' =
     Inr (Arr [Obj [(''path'', Str ''/app/node_modules/x/y/z'')],
               Obj [(''path'', Str ''/app/a'')]])"
    by code_simp
  have a: "allDirsOf (exampleEnv []) layeredOptions =
     Inr [Obj [(''path'', Str ''/app/node_modules/x/y/z'')],
          Obj [(''path'', Str ''/app/a'')],
          Obj [(''path'', Str ''/base/layer/components/global''), (''global'', Bool True)],
          Obj [(''path'', Str ''/base/layer/components'')]]"
    by code_simp
  have "fst (app_resolve (exampleEnv []) layeredOptions (setup_module [] [])) = None"
    by code_simp
  then have h: "app_resolve (exampleEnv []) layeredOptions (setup_module [] [])
                  = (None, layeredResolved)"
    by (simp add: prod_eq_iff layeredResolved_def)
  have c: "map (\<lambda>d. get d ''path'') (componentDirs layeredResolved) =
       [Str ''/app/a'', Str ''/base/layer/components/global'',
        Str ''/base/layer/components'', Str ''/app/node_modules/x/y/z'']"
    by code_simp
  from n a h c
    dirs_ordering [of "exampleEnv []" "[Str ''a'', Str ''node_modules/x/y/z'']" "''/app''"
      "Arr [Obj [(''path'', Str ''/app/node_modules/x/y/z'')], Obj [(''path'', Str ''/app/a'')]]"
      layeredOptions
      "[Obj [(''path'', Str ''/app/node_modules/x/y/z'')],
        Obj [(''path'', Str ''/app/a'')],
        Obj [(''path'', Str ''/base/layer/components/global''), (''global'', Bool True)],
        Obj [(''path'', Str ''/base/layer/components'')]]"
      "setup_module [] []" layeredResolved]
  show ?thesis by blast
qed

section \<open>Warnings for missing directories\<close>

text \<open>
  Claim C7, as stated, fails: the exemption is not for the implicit default
  directories but for every configured path that ends like one. A project rooted at
  \<open>/app\<close> that configures only \<open>lib/components\<close>, missing on disk, resolves to the
  directory \<open>/app/lib/components\<close>, which is neither of the two default directories
  of that root, and nothing is written to the console.
\<close>

theorem configured_missing_no_warning:
  "fst (app_resolve (exampleEnv []) libOptions (setup_module [] [])) = None
   \<and> map (\<lambda>d. get d ''path'')
         (componentDirs (snd (app_resolve (exampleEnv []) libOptions (setup_module [] []))))
       = [Str ''/app/lib/components'']
   \<and> isDirectory (exampleEnv []) ''/app/lib/components'' = False
   \<and> defaultDirs (exampleEnv []) ''/app'' =
       Arr [Obj [(''path'', Str ''/app/components/global''), (''global'', Bool True)],
            Obj [(''path'', Str ''/app/components'')]]
   \<and> console (snd (app_resolve (exampleEnv []) libOptions (setup_module [] []))) = []"
  by code_simp

text \<open>
  Claim C7, amended. When \<open>app:resolve\<close> succeeds, the console receives, entry by
  entry, one warning exactly for the entries whose resolved path is not an existing
  directory (\<open>statSync\<close> throws, or answers something that is not a directory) and
  whose configured path does not end in \<open>/components\<close> or \<open>/components/global\<close>;
  each entry, warned about or not, has its resolved directory in the directory list.
\<close>

theorem warnings_iff_missing:
  assumes "app_resolve E N st = (None, st')"
  shows "\<exists>entries rs wss. resolverInput E N = Inr entries
           \<and> length rs = length entries \<and> length wss = length entries
           \<and> mset (componentDirs st') = mset rs
           \<and> console st' = console st @ concat wss
           \<and> (\<forall>i < length entries. \<exists>p.
                 field (dirOptionsOf (entries ! i)) ''path'' = Str p
               \<and> get (rs ! i) ''path'' = Str (resolveAlias E p)
               \<and> wss ! i =
                   (if statSync E (resolveAlias E p) \<noteq> Stats True
                       \<and> \<not> (endsWith p ''/components'' \<or> endsWith p ''/components/global'')
                    then [''Components directory not found: `'' @ resolveAlias E p @ ''`'']
                    else []))"
proof -
  from app_resolve_success [OF assms] obtain entries ws rs where
    e: "resolverInput E N = Inr entries" and r: "resolveDirs E N entries = (ws, Inr rs)"
    and c: "console st' = console st @ ws" and cd: "componentDirs st' = orderDirs rs"
    by blast
  from resolveDirs_success [OF r] obtain wss where
    wss: "length wss = length entries" "length rs = length entries" "ws = concat wss"
      "\<forall>i < length entries. resolveDir E N (entries ! i) = (wss ! i, Inr (rs ! i))"
    by blast
  have dir: "isDirectory E q \<longleftrightarrow> statSync E q = Stats True" for q
    by (cases "statSync E q") (simp_all add: isDirectory_def)
  have each: "\<exists>p. field (dirOptionsOf (entries ! i)) ''path'' = Str p
               \<and> get (rs ! i) ''path'' = Str (resolveAlias E p)
               \<and> wss ! i =
                   (if statSync E (resolveAlias E p) \<noteq> Stats True
                       \<and> \<not> (endsWith p ''/components'' \<or> endsWith p ''/components/global'')
                    then [''Components directory not found: `'' @ resolveAlias E p @ ''`'']
                    else [])"
    if "i < length entries" for i
  proof -
    from wss(4) that have "resolveDir E N (entries ! i) = (wss ! i, Inr (rs ! i))" by simp
    from resolveDir_success [OF this] show ?thesis
      by (auto simp: dir DEFAULT_COMPONENTS_DIRS_RE_def warning_def)
  qed
  from e wss(1,2) c wss(3) cd each show ?thesis
    by (intro exI [of _ entries] exI [of _ rs] exI [of _ wss]) (simp add: mset_orderDirs)
qed

text \<open>
  The project with a directory that exists, one that is missing, a file, a missing
  \<open>lib/components\<close> and the defaults: the two warnings are for the missing
  directory and the file.
\<close>

theorem warnings_iff_missing_example:
  "app_resolve warnDisk warnOptions (setup_module [] []) = (None, warnResolved)
   \<and> map (\<lambda>d. get d ''path'') (componentDirs warnResolved) =
       [Str ''/app/lib/components'', Str ''/app/components/global'', Str ''/app/present'',
        Str ''/app/missing'', Str ''/app/afile'', Str ''/app/components'']
   \<and> console warnResolved =
       [''Components directory not found: `/app/missing`'',
        ''Components directory not found: `/app/afile`'']
   \<and> (\<exists>entries rs wss. resolverInput warnDisk warnOptions = Inr entries
           \<and> length rs = length entries \<and> length wss = length entries
           \<and> mset (componentDirs warnResolved) = mset rs
           \<and> console warnResolved = console (setup_module [] []) @ concat wss
           \<and> (\<forall>i < length entries. \<exists>p.
                 field (dirOptionsOf (entries ! i)) ''path'' = Str p
               \<and> get (rs ! i) ''path'' = Str (resolveAlias warnDisk p)
               \<and> wss ! i =
                   (if statSync warnDisk (resolveAlias warnDisk p) \<noteq> Stats True
                       \<and> \<not> (endsWith p ''/components'' \<or> endsWith p ''/components/global'')
                    then [''Components directory not found: `'' @ resolveAlias warnDisk p @ ''`'']
                    else [])))"
proof -
  have "fst (app_resolve warnDisk warnOptions (setup_module [] [])) = None"
    by code_simp
  then have h: "app_resolve warnDisk warnOptions (setup_module [] []) = (None, warnResolved)"
    by (simp add: prod_eq_iff warnResolved_def)
  have d: "map (\<lambda>d. get d ''path'') (componentDirs warnResolved) =
       [Str ''/app/lib/components'', Str ''/app/components/global'', Str ''/app/present'',
        Str ''/app/missing'', Str ''/app/afile'', Str ''/app/components'']"
    by code_simp
  have c: "console warnResolved =
       [''Components directory not found: `/app/missing`'',
        ''Components directory not found: `/app/afile`'']"
    by code_simp
  from h d c warnings_iff_missing [OF h] show ?thesis by blast
qed

section \<open>The transpile flag\<close>

text \<open>
  Claim C6. When \<open>app:resolve\<close> succeeds, the \<open>transpile\<close> flag of each resolved
  directory is the configured boolean when there is one, and otherwise says whether the
  resolved path contains \<open>node_modules\<close>; the paths of the directories whose flag is
  true, in the order of the directory list, are appended to the transpile list of the
  project.
\<close>

theorem transpile_flag:
  assumes "app_resolve E N st = (None, st')"
  shows "\<exists>entries rs. resolverInput E N = Inr entries
           \<and> length rs = length entries
           \<and> mset (componentDirs st') = mset rs
           \<and> (\<forall>i < length entries. \<exists>p.
                 field (dirOptionsOf (entries ! i)) ''path'' = Str p
               \<and> get (rs ! i) ''path'' = Str (resolveAlias E p)
               \<and> get (rs ! i) ''transpile'' =
                   Bool (case field (dirOptionsOf (entries ! i)) ''transpile'' of
                           Bool b \<Rightarrow> b
                         | _ \<Rightarrow> strIncludes (resolveAlias E p) ''node_modules''))
           \<and> buildTranspile st' = buildTranspile st @
                map (\<lambda>d. get d ''path'')
                  (filter (\<lambda>d. get d ''transpile'' = Bool True) (componentDirs st'))"
proof -
  from app_resolve_success [OF assms] obtain entries ws rs where
    e: "resolverInput E N = Inr entries" and r: "resolveDirs E N entries = (ws, Inr rs)"
    and cd: "componentDirs st' = orderDirs rs"
    and bt: "buildTranspile st' = buildTranspile st @
                map (\<lambda>d. get d ''path'')
                  (filter (\<lambda>d. get d ''transpile'' = Bool True) (componentDirs st'))"
    by blast
  from resolveDirs_success [OF r] obtain wss where
    wss: "length rs = length entries"
      "\<forall>i < length entries. resolveDir E N (entries ! i) = (wss ! i, Inr (rs ! i))"
    by blast
  have each: "\<exists>p. field (dirOptionsOf (entries ! i)) ''path'' = Str p
               \<and> get (rs ! i) ''path'' = Str (resolveAlias E p)
               \<and> get (rs ! i) ''transpile'' =
                   Bool (case field (dirOptionsOf (entries ! i)) ''transpile'' of
                           Bool b \<Rightarrow> b
                         | _ \<Rightarrow> strIncludes (resolveAlias E p) ''node_modules'')"
    if "i < length entries" for i
  proof -
    from wss(2) that have "resolveDir E N (entries ! i) = (wss ! i, Inr (rs ! i))" by simp
    from resolveDir_success [OF this] show ?thesis by blast
  qed
  from e wss(1) cd each bt show ?thesis
    by (intro exI [of _ entries] exI [of _ rs]) (simp add: mset_orderDirs)
qed

theorem transpile_flag_example:
  "app_resolve exampleDisk exampleOptions (setup_module [] []) = (None, exampleResolved)
   \<and> map (\<lambda>d. (get d ''path'', get d ''transpile'')) (componentDirs exampleResolved) =
       [(Str ''/app/deep/er/dir'', Bool True),
        (Str ''/app/components/global'', Bool False),
        (Str ''/app/missing'', Bool False),
        (Str ''/app/components'', Bool False),
        (Str ''/app/node_modules/ui/components'', Bool False),
        (Str ''/app/node_modules/lib'', Bool True)]
   \<and> buildTranspile exampleResolved = [Str ''/app/deep/er/dir'', Str ''/app/node_modules/lib'']
   \<and> (\<exists>entries rs. resolverInput exampleDisk exampleOptions = Inr entries
           \<and> length rs = length entries
           \<and> mset (componentDirs exampleResolved) = mset rs
           \<and> (\<forall>i < length entries. \<exists>p.
                 field (dirOptionsOf (entries ! i)) ''path'' = Str p
               \<and> get (rs ! i) ''path'' = Str (resolveAlias exampleDisk p)
               \<and> get (rs ! i) ''transpile'' =
                   Bool (case field (dirOptionsOf (entries ! i)) ''transpile'' of
                           Bool b \<Rightarrow> b
                         | _ \<Rightarrow> strIncludes (resolveAlias exampleDisk p) ''node_modules''))
           \<and> buildTranspile exampleResolved = buildTranspile (setup_module [] []) @
                map (\<lambda>d. get d ''path'')
                  (filter (\<lambda>d. get d ''transpile'' = Bool True) (componentDirs exampleResolved)))"
proof -
  have "fst (app_resolve exampleDisk exampleOptions (setup_module [] [])) = None"
    by code_simp
  then have h: "app_resolve exampleDisk exampleOptions (setup_module [] []) = (None, exampleResolved)"
    by (simp add: prod_eq_iff exampleResolved_def)
  have c: "map (\<lambda>d. (get d ''path'', get d ''transpile'')) (componentDirs exampleResolved) =
       [(Str ''/app/deep/er/dir'', Bool True),
        (Str ''/app/components/global'', Bool False),
        (Str ''/app/missing'', Bool False),
        (Str ''/app/components'', Bool False),
        (Str ''/app/node_modules/ui/components'', Bool False),
        (Str ''/app/node_modules/lib'', Bool True)]"
    by code_simp
  have b: "buildTranspile exampleResolved = [Str ''/app/deep/er/dir'', Str ''/app/node_modules/lib'']"
    by code_simp
  from h c b transpile_flag [OF h] show ?thesis by blast
qed

end
